theory Spec2Isabelle
  imports Main "HOL-Library.Word"
begin

unbundle bit_operations_syntax

section \<open>The wire codec of voltdb/fastserializer.go\<close>

subsection \<open>Machine types\<close>

text \<open>
  Go's fixed-width integers are words of their width. A signed value and the
  unsigned value of the same width share one bit pattern, so the conversions
  \<^verbatim>\<open>byte(d)\<close>, \<open>uint16(d)\<close>, \<open>int32(result)\<close> and their like between
  equal widths leave the word as it is; \<open>sint\<close> reads the signed value and
  \<open>unat\<close> the unsigned one. A Go string is its sequence of bytes (the UTF-8
  encoding of its text), and \<open>len\<close> counts those bytes.
\<close>

type_synonym byte = "8 word"
type_synonym int8 = "8 word"
type_synonym int16 = "16 word"
type_synonym uint16 = "16 word"
type_synonym int32 = "32 word"
type_synonym uint32 = "32 word"
type_synonym int64 = "64 word"
type_synonym uint64 = "64 word"
type_synonym gostring = "byte list"

subsection \<open>Errors, panics and the outcome of a call\<close>

text \<open>
  The package declares no error of its own: every error a codec function
  returns is one that the sink or the source handed to it. The values below
  are those of package \<open>io\<close>.
\<close>

datatype error = EOF | ErrUnexpectedEOF | ErrShortWrite

text \<open>
  \<open>make\<close> with a negative length does not return: the Go run time panics
  with "makeslice: len out of range".
\<close>

datatype panic = MakesliceLenOutOfRange

datatype 'a outcome = Return 'a "error option" | Panic panic

subsection \<open>The sink and the source\<close>

text \<open>
  \<open>io.Reader\<close>: \<open>Read(p)\<close> is asked for at most \<open>len(p)\<close> bytes and answers
  with the bytes it delivers, an optional error and its new state.
  \<open>io.Writer\<close>: \<open>Write(p)\<close> answers with the number of bytes it took, an
  optional error and its new state.
\<close>

type_synonym 'r Reader = "nat \<Rightarrow> 'r \<Rightarrow> (byte list \<times> error option) \<times> 'r"
type_synonym 'w Writer = "byte list \<Rightarrow> 'w \<Rightarrow> (nat \<times> error option) \<times> 'w"

text \<open>
  A call \<^verbatim>\<open>n, err := r.Read(p)\<close>: the delivered bytes overwrite the front of
  \<open>p\<close>, the rest of \<open>p\<close> keeps what it held, and \<open>n\<close> is their number (never
  more than \<open>len(p)\<close>).
\<close>

definition Read :: "'r Reader \<Rightarrow> byte list \<Rightarrow> 'r \<Rightarrow> (byte list \<times> nat \<times> error option) \<times> 'r" where
  "Read rd p r =
     (case rd (length p) r of
        ((d, err), r') \<Rightarrow>
          (let got = take (length p) d
           in ((got @ drop (length got) p, length got, err), r')))"

subsection \<open>Big-endian byte order (\<open>var order = binary.BigEndian\<close>)\<close>

definition PutUint16 :: "byte list \<Rightarrow> uint16 \<Rightarrow> byte list" where
  "PutUint16 b v = (b[0 := ucast (drop_bit 8 v)])[1 := ucast v]"

definition Uint16 :: "byte list \<Rightarrow> uint16" where
  "Uint16 b = ucast (b ! 1) OR push_bit 8 (ucast (b ! 0))"

definition PutUint32 :: "byte list \<Rightarrow> uint32 \<Rightarrow> byte list" where
  "PutUint32 b v =
     (((b[0 := ucast (drop_bit 24 v)])[1 := ucast (drop_bit 16 v)])
         [2 := ucast (drop_bit 8 v)])[3 := ucast v]"

definition Uint32 :: "byte list \<Rightarrow> uint32" where
  "Uint32 b = ucast (b ! 3) OR push_bit 8 (ucast (b ! 2))
                OR push_bit 16 (ucast (b ! 1)) OR push_bit 24 (ucast (b ! 0))"

definition PutUint64 :: "byte list \<Rightarrow> uint64 \<Rightarrow> byte list" where
  "PutUint64 b v =
     (((((((b[0 := ucast (drop_bit 56 v)])[1 := ucast (drop_bit 48 v)])
         [2 := ucast (drop_bit 40 v)])[3 := ucast (drop_bit 32 v)])
         [4 := ucast (drop_bit 24 v)])[5 := ucast (drop_bit 16 v)])
         [6 := ucast (drop_bit 8 v)])[7 := ucast v]"

definition Uint64 :: "byte list \<Rightarrow> uint64" where
  "Uint64 b = ucast (b ! 7) OR push_bit 8 (ucast (b ! 6))
                OR push_bit 16 (ucast (b ! 5)) OR push_bit 24 (ucast (b ! 4))
                OR push_bit 32 (ucast (b ! 3)) OR push_bit 40 (ucast (b ! 2))
                OR push_bit 48 (ucast (b ! 1)) OR push_bit 56 (ucast (b ! 0))"

subsection \<open>Protocol version\<close>

definition protoVersion :: byte where
  "protoVersion = 1"

definition writeProtoVersion :: "'w Writer \<Rightarrow> 'w \<Rightarrow> error option \<times> 'w" where
  "writeProtoVersion wr w =
     (let b = [0 :: byte];
          b = b[0 := protoVersion]
      in case wr (take 1 b) w of ((_, err), w') \<Rightarrow> (err, w'))"

subsection \<open>Fixed-width scalars\<close>

definition writeByte :: "'w Writer \<Rightarrow> int8 \<Rightarrow> 'w \<Rightarrow> error option \<times> 'w" where
  "writeByte wr d w =
     (let b = [0 :: byte];
          b = b[0 := d]
      in case wr (take 1 b) w of ((_, err), w') \<Rightarrow> (err, w'))"

definition readByte :: "'r Reader \<Rightarrow> 'r \<Rightarrow> (int8 \<times> error option) \<times> 'r" where
  "readByte rd r =
     (case Read rd (take 1 [0 :: byte]) r of
        ((b, _, err), r') \<Rightarrow>
          (case err of
             Some e \<Rightarrow> ((0, Some e), r')
           | None \<Rightarrow> ((b ! 0, None), r')))"

definition writeBoolean :: "'w Writer \<Rightarrow> bool \<Rightarrow> 'w \<Rightarrow> error option \<times> 'w" where
  "writeBoolean wr d w = (if d then writeByte wr 1 w else writeByte wr 0 w)"

definition readBoolean :: "'r Reader \<Rightarrow> 'r \<Rightarrow> (bool \<times> error option) \<times> 'r" where
  "readBoolean rd r =
     (case readByte rd r of
        ((val, err), r') \<Rightarrow>
          (case err of
             Some e \<Rightarrow> ((False, Some e), r')
           | None \<Rightarrow> ((val \<noteq> 0, None), r')))"

definition writeShort :: "'w Writer \<Rightarrow> int16 \<Rightarrow> 'w \<Rightarrow> error option \<times> 'w" where
  "writeShort wr d w =
     (let bs = PutUint16 (take 2 [0, 0]) d
      in case wr bs w of ((_, err), w') \<Rightarrow> (err, w'))"

definition readShort :: "'r Reader \<Rightarrow> 'r \<Rightarrow> (int16 \<times> error option) \<times> 'r" where
  "readShort rd r =
     (case Read rd (take 2 [0, 0]) r of
        ((bs, _, err), r') \<Rightarrow>
          (case err of
             Some e \<Rightarrow> ((0, Some e), r')
           | None \<Rightarrow> ((Uint16 bs, None), r')))"

definition writeInt :: "'w Writer \<Rightarrow> int32 \<Rightarrow> 'w \<Rightarrow> error option \<times> 'w" where
  "writeInt wr d w =
     (let bs = PutUint32 (take 4 [0, 0, 0, 0]) d
      in case wr bs w of ((_, err), w') \<Rightarrow> (err, w'))"

definition readInt :: "'r Reader \<Rightarrow> 'r \<Rightarrow> (int32 \<times> error option) \<times> 'r" where
  "readInt rd r =
     (case Read rd (take 4 [0, 0, 0, 0]) r of
        ((bs, _, err), r') \<Rightarrow>
          (case err of
             Some e \<Rightarrow> ((0, Some e), r')
           | None \<Rightarrow> ((Uint32 bs, None), r')))"

definition writeLong :: "'w Writer \<Rightarrow> int64 \<Rightarrow> 'w \<Rightarrow> error option \<times> 'w" where
  "writeLong wr d w =
     (let bs = PutUint64 (take 8 [0, 0, 0, 0, 0, 0, 0, 0]) d
      in case wr bs w of ((_, err), w') \<Rightarrow> (err, w'))"

definition readLong :: "'r Reader \<Rightarrow> 'r \<Rightarrow> (int64 \<times> error option) \<times> 'r" where
  "readLong rd r =
     (case Read rd (take 8 [0, 0, 0, 0, 0, 0, 0, 0]) r of
        ((bs, _, err), r') \<Rightarrow>
          (case err of
             Some e \<Rightarrow> ((0, Some e), r')
           | None \<Rightarrow> ((Uint64 bs, None), r')))"

subsection \<open>Floating point\<close>

text \<open>
  A \<open>float64\<close> is its IEEE 754 binary64 bit pattern: bit 63 the sign, bits
  62 to 52 the biased exponent, bits 51 to 0 the fraction. The source converts
  with \<^verbatim>\<open>uint64(d)\<close> and \<^verbatim>\<open>float64(result)\<close>, which are Go's numeric
  conversions. Float to integer discards the fraction (truncation towards
  zero); where the truncated value is not a \<open>uint64\<close> (negative, too large,
  infinite or NaN) the language leaves the result to the implementation, here
  the parameter \<open>impl\<close>. Integer to float rounds to the nearest float, ties
  to even.
\<close>

type_synonym float64 = "64 word"

definition f64_sign :: "float64 \<Rightarrow> bool" where
  "f64_sign d = bit d 63"

definition f64_exponent :: "float64 \<Rightarrow> nat" where
  "f64_exponent d = unat (take_bit 11 (drop_bit 52 d))"

definition f64_fraction :: "float64 \<Rightarrow> nat" where
  "f64_fraction d = unat (take_bit 52 d)"

text \<open>The magnitude of a finite float, its fraction discarded.\<close>

definition f64_trunc :: "float64 \<Rightarrow> nat" where
  "f64_trunc d =
     (let e = f64_exponent d;
          m = (if e = 0 then f64_fraction d else 2 ^ 52 + f64_fraction d);
          x = max e 1
      in if 1075 \<le> x then m * 2 ^ (x - 1075) else m div 2 ^ (1075 - x))"

definition float64_to_uint64 :: "(float64 \<Rightarrow> uint64) \<Rightarrow> float64 \<Rightarrow> uint64" where
  "float64_to_uint64 impl d =
     (if f64_exponent d = 2047 then impl d
      else let t = f64_trunc d
           in if t = 0 then 0
              else if f64_sign d \<or> 2 ^ 64 \<le> t then impl d
              else word_of_nat t)"

text \<open>The number of bits of a natural number (\<open>bits.Len64\<close>).\<close>

fun bit_len :: "nat \<Rightarrow> nat" where
  "bit_len n = (if n = 0 then 0 else Suc (bit_len (n div 2)))"

declare bit_len.simps [simp del]

definition uint64_to_float64 :: "uint64 \<Rightarrow> float64" where
  "uint64_to_float64 u =
     (let n = unat u
      in if n = 0 then 0
         else let k = bit_len n - 1
              in if k \<le> 52
                 then word_of_nat ((1023 + k) * 2 ^ 52 + (n * 2 ^ (52 - k) - 2 ^ 52))
                 else let sh = k - 52;
                          q = n div 2 ^ sh;
                          rest = n mod 2 ^ sh;
                          half = 2 ^ (sh - 1);
                          q' = (if half < rest \<or> (rest = half \<and> odd q) then q + 1 else q)
                      in word_of_nat ((1023 + k) * 2 ^ 52 + (q' - 2 ^ 52)))"

definition writeFloat ::
  "(float64 \<Rightarrow> uint64) \<Rightarrow> 'w Writer \<Rightarrow> float64 \<Rightarrow> 'w \<Rightarrow> error option \<times> 'w" where
  "writeFloat impl wr d w =
     (let bs = PutUint64 (take 8 [0, 0, 0, 0, 0, 0, 0, 0]) (float64_to_uint64 impl d)
      in case wr bs w of ((_, err), w') \<Rightarrow> (err, w'))"

definition readFloat :: "'r Reader \<Rightarrow> 'r \<Rightarrow> (float64 \<times> error option) \<times> 'r" where
  "readFloat rd r =
     (case Read rd (take 8 [0, 0, 0, 0, 0, 0, 0, 0]) r of
        ((bs, _, err), r') \<Rightarrow>
          (case err of
             Some e \<Rightarrow> ((0, Some e), r')
           | None \<Rightarrow> ((uint64_to_float64 (Uint64 bs), None), r')))"

subsection \<open>Length-prefixed strings and byte strings\<close>

text \<open>
  \<^verbatim>\<open>int32(len(d))\<close> keeps the low 32 bits of the length. The error of the
  call of \<open>writeInt\<close> is not looked at. \<open>io.WriteString\<close> hands the bytes of
  the string to the sink in one write.
\<close>

definition writeString :: "'w Writer \<Rightarrow> gostring \<Rightarrow> 'w \<Rightarrow> error option \<times> 'w" where
  "writeString wr d w =
     (case writeInt wr (word_of_nat (length d)) w of
        (_, w1) \<Rightarrow> (case wr d w1 of ((_, err), w2) \<Rightarrow> (err, w2)))"

definition writeByteString :: "'w Writer \<Rightarrow> byte list \<Rightarrow> 'w \<Rightarrow> error option \<times> 'w" where
  "writeByteString wr d w =
     (case writeInt wr (word_of_nat (length d)) w of
        (_, w1) \<Rightarrow> (case wr d w1 of ((_, err), w2) \<Rightarrow> (err, w2)))"

definition readString :: "'r Reader \<Rightarrow> 'r \<Rightarrow> gostring outcome \<times> 'r" where
  "readString rd r =
     (case readInt rd r of
        ((len, err), r1) \<Rightarrow>
          (case err of
             Some e \<Rightarrow> (Return [] (Some e), r1)
           | None \<Rightarrow>
               if sint len < 0 then (Panic MakesliceLenOutOfRange, r1)
               else (case Read rd (replicate (nat (sint len)) 0) r1 of
                       ((bs, _, err), r2) \<Rightarrow>
                         (case err of
                            Some e \<Rightarrow> (Return [] (Some e), r2)
                          | None \<Rightarrow> (Return bs None, r2)))))"

subsection \<open>Arrays\<close>

text \<open>
  The loop \<^verbatim>\<open>for idx := range arr\<close> runs \<open>idx\<close> from 0 to \<open>len(arr) - 1\<close>.
  The \<open>nil\<close> slice returned with an error is the empty list.
\<close>

function readByteArray_loop ::
  "'r Reader \<Rightarrow> int8 list \<Rightarrow> nat \<Rightarrow> 'r \<Rightarrow> int8 list outcome \<times> 'r" where
  "readByteArray_loop rd arr idx r =
     (if idx < length arr
      then (case readByte rd r of
              ((val, err), r') \<Rightarrow>
                (case err of
                   Some e \<Rightarrow> (Return [] (Some e), r')
                 | None \<Rightarrow> readByteArray_loop rd (arr[idx := val]) (idx + 1) r'))
      else (Return arr None, r))"
  by pat_completeness auto
termination
  by (relation "measure (\<lambda>(rd, arr, idx, r). length arr - idx)") auto

declare readByteArray_loop.simps [simp del]

definition readByteArray :: "'r Reader \<Rightarrow> 'r \<Rightarrow> int8 list outcome \<times> 'r" where
  "readByteArray rd r =
     (case readInt rd r of
        ((cnt, err), r1) \<Rightarrow>
          (case err of
             Some e \<Rightarrow> (Return [] (Some e), r1)
           | None \<Rightarrow>
               if sint cnt < 0 then (Panic MakesliceLenOutOfRange, r1)
               else readByteArray_loop rd (replicate (nat (sint cnt)) 0) 0 r1))"

function readStringArray_loop ::
  "'r Reader \<Rightarrow> gostring list \<Rightarrow> nat \<Rightarrow> 'r \<Rightarrow> gostring list outcome \<times> 'r" where
  "readStringArray_loop rd arr idx r =
     (if idx < length arr
      then (case readString rd r of
              (Panic p, r') \<Rightarrow> (Panic p, r')
            | (Return val err, r') \<Rightarrow>
                (case err of
                   Some e \<Rightarrow> (Return [] (Some e), r')
                 | None \<Rightarrow> readStringArray_loop rd (arr[idx := val]) (idx + 1) r'))
      else (Return arr None, r))"
  by pat_completeness auto
termination
  by (relation "measure (\<lambda>(rd, arr, idx, r). length arr - idx)") auto

declare readStringArray_loop.simps [simp del]

definition readStringArray :: "'r Reader \<Rightarrow> 'r \<Rightarrow> gostring list outcome \<times> 'r" where
  "readStringArray rd r =
     (case readShort rd r of
        ((cnt, err), r1) \<Rightarrow>
          (case err of
             Some e \<Rightarrow> (Return [] (Some e), r1)
           | None \<Rightarrow>
               if sint cnt < 0 then (Panic MakesliceLenOutOfRange, r1)
               else readStringArray_loop rd (replicate (nat (sint cnt)) []) 0 r1))"

subsection \<open>Sinks and sources of Go's standard library\<close>

text \<open>
  \<open>bytes.Buffer\<close>, a sink and a source over one byte sequence. Its \<open>Write\<close>
  appends and never fails. Its \<open>Read\<close> delivers what is left, up to the
  number asked for; on an empty buffer it answers \<open>io.EOF\<close>, unless zero
  bytes were asked for.
\<close>

definition Buffer_Write :: "byte list Writer" where
  "Buffer_Write p buf = ((length p, None), buf @ p)"

definition Buffer_Read :: "byte list Reader" where
  "Buffer_Read n buf =
     (if buf = [] then (if n = 0 then (([], None), []) else (([], Some EOF), []))
      else ((take n buf, None), drop n buf))"

text \<open>
  \<open>iotest.OneByteReader\<close>: a source that answers every non-empty \<open>Read\<close>
  by reading a single byte from the source it wraps.
\<close>

definition OneByteReader :: "'r Reader \<Rightarrow> 'r Reader" where
  "OneByteReader rd n r = (if n = 0 then (([], None), r) else rd 1 r)"

text \<open>
  A sink of bounded room that takes a write whole or not at all: a write that
  does not fit takes nothing and answers \<open>io.ErrShortWrite\<close>. Its state is
  the room left and the bytes taken so far.
\<close>

definition Bounded_Write :: "(nat \<times> byte list) Writer" where
  "Bounded_Write p w =
     (case w of
        (room, buf) \<Rightarrow>
          if length p \<le> room then ((length p, None), (room - length p, buf @ p))
          else ((0, Some ErrShortWrite), (room, buf)))"

text \<open>
  A source with full-read semantics: \<open>io.ReadFull\<close> over a
  \<open>bytes.Buffer\<close>. It delivers all the bytes asked for, or what is left
  together with \<open>io.ErrUnexpectedEOF\<close> (\<open>io.EOF\<close> when nothing is left).
\<close>

definition ReadFull_Buffer :: "byte list Reader" where
  "ReadFull_Buffer n buf =
     (if n \<le> length buf then ((take n buf, None), drop n buf)
      else if buf = [] then (([], Some EOF), [])
      else ((buf, Some ErrUnexpectedEOF), []))"

text \<open>
  A source wrapped so that its state also counts the bytes it has delivered.
\<close>

definition Counting :: "'r Reader \<Rightarrow> ('r \<times> nat) Reader" where
  "Counting rd n rc =
     (case rc of
        (r, c) \<Rightarrow>
          (case rd n r of ((d, err), r') \<Rightarrow> ((d, err), (r', c + length (take n d)))))"

text \<open>
  Full-read semantics: a \<open>Read\<close> that reports no error has delivered all
  the bytes it was asked for.
\<close>

definition full_reads :: "'r Reader \<Rightarrow> bool" where
  "full_reads rd \<longleftrightarrow> (\<forall>n r d r'. rd n r = ((d, None), r') \<longrightarrow> length d = n)"

text \<open>
  Successive calls of \<open>readString\<close>, the first on the state \<open>r\<close> and each
  next one on the state the call before it left: the state the last call
  leaves when every call succeeds and the calls return the strings \<open>ss\<close> in
  their order, and \<open>None\<close> otherwise.
\<close>

fun reads_in_turn :: "'r Reader \<Rightarrow> gostring list \<Rightarrow> 'r \<Rightarrow> 'r option" where
  "reads_in_turn rd [] r = Some r"
| "reads_in_turn rd (s # ss) r =
     (case readString rd r of
        (Return v None, r1) \<Rightarrow> (if v = s then reads_in_turn rd ss r1 else None)
      | (Return v (Some e), r1) \<Rightarrow> None
      | (Panic p, r1) \<Rightarrow> None)"

section \<open>Properties\<close>

subsection \<open>Reading from and writing to a buffer\<close>

lemma Read_Buffer:
  "length p = length bs \<Longrightarrow> Read Buffer_Read p (bs @ rest) = ((bs, length bs, None), rest)"
  by (cases bs) (auto simp: Read_def Buffer_Read_def)

lemma Uint16_PutUint16: "Uint16 (PutUint16 [a, b] v) = v"
proof (rule bit_word_eqI)
  fix n assume "n < LENGTH(16)"
  then show "bit (Uint16 (PutUint16 [a, b] v)) n = bit v n"
    by (cases "n < 8") (auto simp add: Uint16_def PutUint16_def bit_simps not_less)
qed

lemma Uint32_PutUint32: "Uint32 (PutUint32 [a, b, c, d] v) = v"
proof (rule bit_word_eqI)
  fix n assume n: "n < LENGTH(32)"
  consider "n < 8" | "8 \<le> n" "n < 16" | "16 \<le> n" "n < 24" | "24 \<le> n"
    by linarith
  then show "bit (Uint32 (PutUint32 [a, b, c, d] v)) n = bit v n"
    using n by cases (auto simp add: Uint32_def PutUint32_def bit_simps not_less)
qed

lemma Uint64_PutUint64: "Uint64 (PutUint64 [a, b, c, d, e, f, g, h] v) = v"
proof (rule bit_word_eqI)
  fix n assume n: "n < LENGTH(64)"
  consider "n < 8" | "8 \<le> n" "n < 16" | "16 \<le> n" "n < 24" | "24 \<le> n" "n < 32"
    | "32 \<le> n" "n < 40" | "40 \<le> n" "n < 48" | "48 \<le> n" "n < 56" | "56 \<le> n"
    by linarith
  then show "bit (Uint64 (PutUint64 [a, b, c, d, e, f, g, h] v)) n = bit v n"
    using n by cases (auto simp add: Uint64_def PutUint64_def bit_simps not_less)
qed

lemma length_PutUint16 [simp]: "length (PutUint16 b v) = length b"
  by (simp add: PutUint16_def)

lemma length_PutUint32 [simp]: "length (PutUint32 b v) = length b"
  by (simp add: PutUint32_def)

lemma length_PutUint64 [simp]: "length (PutUint64 b v) = length b"
  by (simp add: PutUint64_def)

lemma writeByte_Buffer: "writeByte Buffer_Write v buf = (None, buf @ [v])"
  by (simp add: writeByte_def Buffer_Write_def)

lemma writeShort_Buffer: "writeShort Buffer_Write v buf = (None, buf @ PutUint16 [0, 0] v)"
  by (simp add: writeShort_def Buffer_Write_def)

lemma writeInt_Buffer: "writeInt Buffer_Write v buf = (None, buf @ PutUint32 [0, 0, 0, 0] v)"
  by (simp add: writeInt_def Buffer_Write_def)

lemma writeLong_Buffer:
  "writeLong Buffer_Write v buf = (None, buf @ PutUint64 [0, 0, 0, 0, 0, 0, 0, 0] v)"
  by (simp add: writeLong_def Buffer_Write_def)

lemma readByte_Buffer: "readByte Buffer_Read (b # rest) = ((b, None), rest)"
  using Read_Buffer [of "[0]" "[b]" rest] by (simp add: readByte_def)

lemma readShort_Buffer:
  "length bs = 2 \<Longrightarrow> readShort Buffer_Read (bs @ rest) = ((Uint16 bs, None), rest)"
  using Read_Buffer [of "[0, 0]" bs rest] by (simp add: readShort_def)

lemma readInt_Buffer:
  "length bs = 4 \<Longrightarrow> readInt Buffer_Read (bs @ rest) = ((Uint32 bs, None), rest)"
  using Read_Buffer [of "[0, 0, 0, 0]" bs rest] by (simp add: readInt_def)

lemma readLong_Buffer:
  "length bs = 8 \<Longrightarrow> readLong Buffer_Read (bs @ rest) = ((Uint64 bs, None), rest)"
  using Read_Buffer [of "[0, 0, 0, 0, 0, 0, 0, 0]" bs rest] by (simp add: readLong_def)

subsection \<open>The protocol version byte\<close>

text \<open>
  C9: \<open>writeProtoVersion\<close> hands the sink exactly one byte in one write, the
  byte is the constant \<open>protoVersion\<close>, and that constant is 1; on a buffer
  the call appends the single byte 1.
\<close>

theorem writeProtoVersion_one_byte:
  "protoVersion = 1
   \<and> writeProtoVersion wr w = (case wr [protoVersion] w of ((n, err), w') \<Rightarrow> (err, w'))
   \<and> writeProtoVersion Buffer_Write buf = (None, buf @ [1])"
  by (simp add: writeProtoVersion_def protoVersion_def Buffer_Write_def)

subsection \<open>Booleans\<close>

text \<open>
  C6: \<open>writeBoolean\<close> writes exactly one byte, 1 for true and 0 for false;
  \<open>readBoolean\<close> takes exactly one byte from the source and answers true if
  and only if that byte is not zero, so the byte 7 reads as true.
\<close>

theorem boolean_codec:
  "writeBoolean wr d w = (case wr [if d then 1 else 0] w of ((n, err), w') \<Rightarrow> (err, w'))
   \<and> writeBoolean Buffer_Write d buf = (None, buf @ [if d then 1 else 0])
   \<and> readBoolean Buffer_Read (b # rest) = ((b \<noteq> 0, None), rest)
   \<and> readBoolean Buffer_Read [7] = ((True, None), [])"
  by (simp add: writeBoolean_def writeByte_def Buffer_Write_def readBoolean_def readByte_Buffer)

subsection \<open>Fixed-width integers\<close>

text \<open>
  C5: for every 8, 16, 32 and 64 bit value, writing it into an empty buffer
  and reading it back with the matching operation yields the same value and
  takes exactly the bytes written, whatever follows them. The statement is
  about every word, so zero, the least and the greatest value are covered.
\<close>

theorem integer_round_trip:
  "readByte Buffer_Read (snd (writeByte Buffer_Write v8 []) @ rest) = ((v8, None), rest)
   \<and> readShort Buffer_Read (snd (writeShort Buffer_Write v16 []) @ rest) = ((v16, None), rest)
   \<and> readInt Buffer_Read (snd (writeInt Buffer_Write v32 []) @ rest) = ((v32, None), rest)
   \<and> readLong Buffer_Read (snd (writeLong Buffer_Write v64 []) @ rest) = ((v64, None), rest)"
  by (simp add: writeByte_Buffer writeShort_Buffer writeInt_Buffer writeLong_Buffer
      readByte_Buffer readShort_Buffer readInt_Buffer readLong_Buffer
      Uint16_PutUint16 Uint32_PutUint32 Uint64_PutUint64)

subsection \<open>Floating point\<close>

lemma bit_len_3: "bit_len 3 = 2"
  by (simp add: bit_len.simps)

lemma float64_to_uint64_3_5: "float64_to_uint64 impl 0x400C000000000000 = 3"
proof -
  have e: "f64_exponent 0x400C000000000000 = 1024"
    by (simp add: f64_exponent_def)
  have f: "f64_fraction 0x400C000000000000 = 0xC000000000000"
    by (simp add: f64_fraction_def)
  have t: "f64_trunc 0x400C000000000000 = 3"
    by (simp add: f64_trunc_def e f)
  show ?thesis
    by (simp add: float64_to_uint64_def f64_sign_def e t)
qed

lemma uint64_to_float64_3: "uint64_to_float64 3 = 0x4008000000000000"
  by (simp add: uint64_to_float64_def bit_len_3)

lemma PutUint64_3: "PutUint64 [0, 0, 0, 0, 0, 0, 0, 0] 3 = [0, 0, 0, 0, 0, 0, 0, 3]"
  by (simp add: PutUint64_def drop_bit_eq_div)

lemma Uint64_3: "Uint64 [0, 0, 0, 0, 0, 0, 0, 3] = 3"
  by (simp add: Uint64_def)

lemma readFloat_Buffer:
  "length bs = 8 \<Longrightarrow>
   readFloat Buffer_Read (bs @ rest) = ((uint64_to_float64 (Uint64 bs), None), rest)"
  using Read_Buffer [of "[0, 0, 0, 0, 0, 0, 0, 0]" bs rest] by (simp add: readFloat_def)

text \<open>
  C1 (the code at the float 3.5, whose bit pattern is 400C000000000000):
  \<open>writeFloat\<close> writes the integer 3, the number with its fraction cut off,
  and not the bit pattern; \<open>readFloat\<close> turns those eight bytes into the
  float 3.0, whose bit pattern 4008000000000000 differs from that of 3.5.
\<close>

theorem writeFloat_converts_numerically:
  "writeFloat impl Buffer_Write 0x400C000000000000 [] = (None, [0, 0, 0, 0, 0, 0, 0, 3])
   \<and> readFloat Buffer_Read [0, 0, 0, 0, 0, 0, 0, 3] = ((0x4008000000000000, None), [])
   \<and> (0x4008000000000000 :: float64) \<noteq> 0x400C000000000000"
  using readFloat_Buffer [of "[0, 0, 0, 0, 0, 0, 0, 3]" "[]"]
  by (simp add: writeFloat_def Buffer_Write_def float64_to_uint64_3_5 PutUint64_3
      Uint64_3 uint64_to_float64_3)

subsection \<open>Errors of the sink\<close>

text \<open>
  C3 (the code on a sink with room for two bytes and the string "ok"): the
  write of the four-byte length fails, \<open>writeString\<close> and
  \<open>writeByteString\<close> go on, the two bytes of the payload fit, and both
  report no error although the length never reached the sink.
\<close>

theorem writeString_drops_prefix_error:
  "writeInt Bounded_Write 2 (2, []) = (Some ErrShortWrite, (2, []))
   \<and> writeString Bounded_Write [0x6F, 0x6B] (2, []) = (None, (0, [0x6F, 0x6B]))
   \<and> writeByteString Bounded_Write [0x6F, 0x6B] (2, []) = (None, (0, [0x6F, 0x6B]))"
  by (simp add: writeString_def writeByteString_def writeInt_def Bounded_Write_def)

subsection \<open>The value returned with an error\<close>

lemma readByte_error: "readByte rd r = ((v, Some e), r') \<Longrightarrow> v = 0"
  by (auto simp: readByte_def split: prod.splits option.splits)

lemma readShort_error: "readShort rd r = ((v, Some e), r') \<Longrightarrow> v = 0"
  by (auto simp: readShort_def split: prod.splits option.splits)

lemma readInt_error: "readInt rd r = ((v, Some e), r') \<Longrightarrow> v = 0"
  by (auto simp: readInt_def split: prod.splits option.splits)

lemma readLong_error: "readLong rd r = ((v, Some e), r') \<Longrightarrow> v = 0"
  by (auto simp: readLong_def split: prod.splits option.splits)

lemma readFloat_error: "readFloat rd r = ((v, Some e), r') \<Longrightarrow> v = 0"
  by (auto simp: readFloat_def split: prod.splits option.splits)

lemma readBoolean_error: "readBoolean rd r = ((v, Some e), r') \<Longrightarrow> v = False"
  by (auto simp: readBoolean_def split: prod.splits option.splits)

lemma readString_error: "readString rd r = (Return v (Some e), r') \<Longrightarrow> v = []"
  by (auto simp: readString_def split: prod.splits option.splits if_splits)

lemma readByteArray_loop_error:
  "readByteArray_loop rd arr idx r = (Return v (Some e), r') \<Longrightarrow> v = []"
proof (induction rd arr idx r rule: readByteArray_loop.induct)
  case (1 rd arr idx r)
  show ?case
  proof (cases "idx < length arr")
    case False
    with "1.prems" show ?thesis
      by (simp add: readByteArray_loop.simps [of rd arr idx r])
  next
    case True
    obtain val err r1 where rb: "readByte rd r = ((val, err), r1)"
      by (metis prod.exhaust)
    show ?thesis
    proof (cases err)
      case (Some e')
      with True rb "1.prems" show ?thesis
        by (simp add: readByteArray_loop.simps [of rd arr idx r])
    next
      case None
      with True rb "1.prems"
      have "readByteArray_loop rd (arr[idx := val]) (idx + 1) r1 = (Return v (Some e), r')"
        by (simp add: readByteArray_loop.simps [of rd arr idx r])
      with "1.IH" [OF True rb [symmetric] refl None] show ?thesis
        by simp
    qed
  qed
qed

lemma readByteArray_error: "readByteArray rd r = (Return v (Some e), r') \<Longrightarrow> v = []"
  by (auto simp: readByteArray_def split: prod.splits option.splits if_splits
      dest: readByteArray_loop_error)


lemma readStringArray_loop_error:
  "readStringArray_loop rd arr idx r = (Return v (Some e), r') \<Longrightarrow> v = []"
proof (induction rd arr idx r rule: readStringArray_loop.induct)
  case (1 rd arr idx r)
  show ?case
  proof (cases "idx < length arr")
    case False
    with "1.prems" show ?thesis
      by (simp add: readStringArray_loop.simps [of rd arr idx r])
  next
    case True
    show ?thesis
    proof (cases "readString rd r")
      case (Pair out r1)
      show ?thesis
      proof (cases out)
        case (Panic p)
        with True Pair "1.prems" show ?thesis
          by (simp add: readStringArray_loop.simps [of rd arr idx r])
      next
        case (Return val err)
        show ?thesis
        proof (cases err)
          case (Some e')
          with True Pair Return "1.prems" show ?thesis
            by (simp add: readStringArray_loop.simps [of rd arr idx r])
        next
          case None
          with True Pair Return "1.prems"
          have "readStringArray_loop rd (arr[idx := val]) (idx + 1) r1 = (Return v (Some e), r')"
            by (simp add: readStringArray_loop.simps [of rd arr idx r])
          moreover have "(out, r1) = readString rd r"
            using Pair by simp
          ultimately show ?thesis
            using "1.IH" [OF True _ Return None] by simp
        qed
      qed
    qed
  qed
qed

lemma readStringArray_error: "readStringArray rd r = (Return v (Some e), r') \<Longrightarrow> v = []"
  by (auto simp: readStringArray_def split: prod.splits option.splits if_splits
      dest: readStringArray_loop_error)

text \<open>
  C10: whenever a read operation returns an error, the value returned with it
  is the zero value of its type: false, 0, the empty string, the empty
  sequence. This holds on every source.
\<close>

theorem read_error_zero_value:
  "(readBoolean rd r = ((b, Some e), r') \<longrightarrow> b = False)
   \<and> (readByte rd r = ((v8, Some e), r') \<longrightarrow> v8 = 0)
   \<and> (readShort rd r = ((v16, Some e), r') \<longrightarrow> v16 = 0)
   \<and> (readInt rd r = ((v32, Some e), r') \<longrightarrow> v32 = 0)
   \<and> (readLong rd r = ((v64, Some e), r') \<longrightarrow> v64 = 0)
   \<and> (readFloat rd r = ((f, Some e), r') \<longrightarrow> f = 0)
   \<and> (readString rd r = (Return s (Some e), r') \<longrightarrow> s = [])
   \<and> (readByteArray rd r = (Return bs (Some e), r') \<longrightarrow> bs = [])
   \<and> (readStringArray rd r = (Return ss (Some e), r') \<longrightarrow> ss = [])"
  by (auto dest: readBoolean_error readByte_error readShort_error readInt_error
      readLong_error readFloat_error readString_error readByteArray_error
      readStringArray_error)

lemma Read_Buffer_Nil: "p \<noteq> [] \<Longrightarrow> Read Buffer_Read p [] = ((p, 0, Some EOF), [])"
  by (simp add: Read_def Buffer_Read_def)

theorem read_error_zero_value_witness:
  "readBoolean Buffer_Read [] = ((False, Some EOF), [])
   \<and> readByte Buffer_Read [] = ((0, Some EOF), [])
   \<and> readShort Buffer_Read [] = ((0, Some EOF), [])
   \<and> readInt Buffer_Read [] = ((0, Some EOF), [])
   \<and> readLong Buffer_Read [] = ((0, Some EOF), [])
   \<and> readFloat Buffer_Read [] = ((0, Some EOF), [])
   \<and> readString Buffer_Read [] = (Return [] (Some EOF), [])
   \<and> readByteArray Buffer_Read [] = (Return [] (Some EOF), [])
   \<and> readStringArray Buffer_Read [] = (Return [] (Some EOF), [])"
  using read_error_zero_value [of Buffer_Read "[]" False EOF "[]" 0 0 0 0 0 "[]" "[]" "[]"]
  by (simp add: readBoolean_def readByte_def readShort_def readInt_def readLong_def
      readFloat_def readString_def readByteArray_def readStringArray_def Read_Buffer_Nil)

subsection \<open>Negative lengths\<close>

text \<open>
  C2, as the claim states it, fails: on a length prefix of -1 the three
  operations return no error at all, they panic.
\<close>

theorem negative_length_counterexample:
  "readString Buffer_Read [0xFF, 0xFF, 0xFF, 0xFF] = (Panic MakesliceLenOutOfRange, [])
   \<and> readByteArray Buffer_Read [0xFF, 0xFF, 0xFF, 0xFF] = (Panic MakesliceLenOutOfRange, [])
   \<and> readStringArray Buffer_Read [0xFF, 0xFF] = (Panic MakesliceLenOutOfRange, [])"
  using readInt_Buffer [of "[0xFF, 0xFF, 0xFF, 0xFF]" "[]"] readShort_Buffer [of "[0xFF, 0xFF]" "[]"]
  by (simp add: readString_def readByteArray_def readStringArray_def Uint32_def Uint16_def)

text \<open>
  C2, amended: on every source, once the 4-byte prefix (\<open>readString\<close>,
  \<open>readByteArray\<close>) or the 2-byte prefix (\<open>readStringArray\<close>) has been read
  without error and decodes to a negative value, the operation reads nothing
  more and ends in the run-time panic of the allocation; it returns neither a
  value nor an error, and nothing wraps around.
\<close>

theorem negative_length_panics:
  "(readInt rd r = ((n, None), r1) \<and> sint n < 0 \<longrightarrow>
      readString rd r = (Panic MakesliceLenOutOfRange, r1)
      \<and> readByteArray rd r = (Panic MakesliceLenOutOfRange, r1))
   \<and> (readShort rd r = ((m, None), r2) \<and> sint m < 0 \<longrightarrow>
      readStringArray rd r = (Panic MakesliceLenOutOfRange, r2))"
  by (simp add: readString_def readByteArray_def readStringArray_def)

theorem negative_length_panics_witness:
  "readInt Buffer_Read [0xFF, 0xFF, 0xFF, 0xFF] = ((- 1, None), [])
   \<and> sint (- 1 :: int32) < 0
   \<and> readString Buffer_Read [0xFF, 0xFF, 0xFF, 0xFF] = (Panic MakesliceLenOutOfRange, [])
   \<and> readByteArray Buffer_Read [0xFF, 0xFF, 0xFF, 0xFF] = (Panic MakesliceLenOutOfRange, [])
   \<and> readShort Buffer_Read [0xFF, 0xFF] = ((- 1, None), [])
   \<and> sint (- 1 :: int16) < 0
   \<and> readStringArray Buffer_Read [0xFF, 0xFF] = (Panic MakesliceLenOutOfRange, [])"
  using negative_length_panics [of Buffer_Read "[0xFF, 0xFF, 0xFF, 0xFF]" "- 1" "[]"]
    negative_length_panics [of Buffer_Read "[0xFF, 0xFF]" _ _ "- 1" "[]"]
    readInt_Buffer [of "[0xFF, 0xFF, 0xFF, 0xFF]" "[]"] readShort_Buffer [of "[0xFF, 0xFF]" "[]"]
  by (simp add: Uint32_def Uint16_def)

subsection \<open>Bytes consumed by a read\<close>

lemma Read_Counting:
  "Read (Counting rd) p (r, c) =
     (case Read rd p r of ((b, n, err), r') \<Rightarrow> ((b, n, err), (r', c + n)))"
  by (simp add: Read_def Counting_def Let_def split: prod.splits)

lemma Read_full:
  assumes full: "full_reads rd"
    and rd: "Read rd p r = ((b, n, None), r')"
  shows "n = length p" and "length b = length p"
proof -
  obtain d err r1 where d0: "rd (length p) r = ((d, err), r1)"
    by (metis prod.exhaust)
  with rd have err: "err = None" and r1: "r1 = r'"
    and b: "b = take (length p) d @ drop (length (take (length p) d)) p"
    and n: "n = length (take (length p) d)"
    by (auto simp add: Read_def Let_def)
  from d0 err r1 have d: "rd (length p) r = ((d, None), r')"
    by simp
  from full d have "length d = length p"
    unfolding full_reads_def by blast
  with b n show "n = length p" and "length b = length p"
    by simp_all
qed

lemma Read_Counting_full:
  assumes full: "full_reads rd"
    and rd: "Read (Counting rd) p (r, c) = ((b, n, None), (r', c'))"
  shows "c' = c + length p" and "length b = length p"
proof -
  from rd have "Read rd p r = ((b, n, None), r')" and c': "c' = c + n"
    by (auto simp: Read_Counting split: prod.splits)
  from Read_full [OF full this(1)] c' show "c' = c + length p" and "length b = length p"
    by simp_all
qed

lemma readByte_Counting:
  assumes full: "full_reads rd"
    and "readByte (Counting rd) (r, c) = ((v, None), (r', c'))"
  shows "c' = c + 1"
  using assms(2) Read_Counting_full(1) [where rd = rd and p = "[0]" and r = r and c = c, OF full]
  by (auto simp: readByte_def split: prod.splits option.splits)

lemma readShort_Counting:
  assumes full: "full_reads rd"
    and "readShort (Counting rd) (r, c) = ((v, None), (r', c'))"
  shows "c' = c + 2"
  using assms(2) Read_Counting_full(1) [where rd = rd and p = "[0, 0]" and r = r and c = c, OF full]
  by (auto simp: readShort_def split: prod.splits option.splits)

lemma readInt_Counting:
  assumes full: "full_reads rd"
    and "readInt (Counting rd) (r, c) = ((v, None), (r', c'))"
  shows "c' = c + 4"
  using assms(2) Read_Counting_full(1) [where rd = rd and p = "[0, 0, 0, 0]" and r = r and c = c, OF full]
  by (auto simp: readInt_def split: prod.splits option.splits)

lemma readLong_Counting:
  assumes full: "full_reads rd"
    and "readLong (Counting rd) (r, c) = ((v, None), (r', c'))"
  shows "c' = c + 8"
  using assms(2) Read_Counting_full(1) [where rd = rd and p = "[0, 0, 0, 0, 0, 0, 0, 0]" and r = r and c = c, OF full]
  by (auto simp: readLong_def split: prod.splits option.splits)

lemma readFloat_Counting:
  assumes full: "full_reads rd"
    and "readFloat (Counting rd) (r, c) = ((v, None), (r', c'))"
  shows "c' = c + 8"
  using assms(2) Read_Counting_full(1) [where rd = rd and p = "[0, 0, 0, 0, 0, 0, 0, 0]" and r = r and c = c, OF full]
  by (auto simp: readFloat_def split: prod.splits option.splits)

lemma readBoolean_Counting:
  assumes full: "full_reads rd"
    and "readBoolean (Counting rd) (r, c) = ((v, None), (r', c'))"
  shows "c' = c + 1"
  using assms(2) readByte_Counting [where rd = rd and r = r and c = c, OF full]
  by (auto simp: readBoolean_def split: prod.splits option.splits)

lemma readString_Counting:
  assumes full: "full_reads rd"
    and rs: "readString (Counting rd) (r, c) = (Return s None, (r', c'))"
  shows "\<exists>len r1. readInt (Counting rd) (r, c) = ((len, None), (r1, c + 4))
           \<and> 0 \<le> sint len \<and> length s = nat (sint len) \<and> c' = c + 4 + nat (sint len)"
proof -
  obtain len r1 c1 n where ri: "readInt (Counting rd) (r, c) = ((len, None), (r1, c1))"
    and pos: "\<not> sint len < 0"
    and rd: "Read (Counting rd) (replicate (nat (sint len)) 0) (r1, c1)
               = ((s, n, None), (r', c'))"
    using rs by (auto simp: readString_def split: prod.splits option.splits if_splits)
  from readInt_Counting [where rd = rd, OF full ri] have c1: "c1 = c + 4" .
  from Read_Counting_full [where rd = rd, OF full rd]
  have "c' = c1 + nat (sint len)" and "length s = nat (sint len)"
    by simp_all
  with ri pos c1 show ?thesis
    by auto
qed

lemma readString_Counting_length:
  assumes full: "full_reads rd"
    and rs: "readString (Counting rd) (r, c) = (Return s None, (r', c'))"
  shows "c' = c + 4 + length s"
  using readString_Counting [OF full rs] by auto

lemma readByteArray_loop_Counting:
  assumes full: "full_reads rd"
  shows "readByteArray_loop (Counting rd) arr idx (r, c) = (Return bs None, (r', c'))
    \<Longrightarrow> c' = c + (length arr - idx) \<and> length bs = length arr"
proof (induction k \<equiv> "length arr - idx" arbitrary: arr idx r c)
  case 0
  then have "\<not> idx < length arr"
    by simp
  with "0.prems" show ?case
    by (simp add: readByteArray_loop.simps [of _ arr idx])
next
  case (Suc k)
  from Suc.hyps(2) have lt: "idx < length arr"
    by simp
  obtain val err r1 c1 where rb: "readByte (Counting rd) (r, c) = ((val, err), (r1, c1))"
    by (metis prod.exhaust)
  with lt Suc.prems have err: "err = None"
    and loop: "readByteArray_loop (Counting rd) (arr[idx := val]) (idx + 1) (r1, c1)
                 = (Return bs None, (r', c'))"
    by (auto simp: readByteArray_loop.simps [of _ arr idx] split: option.splits)
  from readByte_Counting [where rd = rd, OF full] rb err have c1: "c1 = c + 1"
    by simp
  from Suc.hyps(2) have "k = length (arr[idx := val]) - (idx + 1)"
    by simp
  from Suc.hyps(1) [OF this loop] c1 lt show ?case
    by simp
qed

lemma readByteArray_Counting:
  assumes full: "full_reads rd"
    and rs: "readByteArray (Counting rd) (r, c) = (Return bs None, (r', c'))"
  shows "\<exists>cnt r1. readInt (Counting rd) (r, c) = ((cnt, None), (r1, c + 4))
           \<and> 0 \<le> sint cnt \<and> length bs = nat (sint cnt) \<and> c' = c + 4 + nat (sint cnt)"
proof -
  obtain cnt r1 c1 where ri: "readInt (Counting rd) (r, c) = ((cnt, None), (r1, c1))"
    and pos: "\<not> sint cnt < 0"
    and loop: "readByteArray_loop (Counting rd) (replicate (nat (sint cnt)) 0) 0 (r1, c1)
                 = (Return bs None, (r', c'))"
    using rs by (auto simp: readByteArray_def split: prod.splits option.splits if_splits)
  from readInt_Counting [where rd = rd, OF full ri] have c1: "c1 = c + 4" .
  from readByteArray_loop_Counting [where rd = rd, OF full loop]
  have "c' = c1 + nat (sint cnt)" and "length bs = nat (sint cnt)"
    by simp_all
  with ri pos c1 show ?thesis
    by auto
qed

lemma readStringArray_loop_Counting:
  assumes full: "full_reads rd"
  shows "readStringArray_loop (Counting rd) arr idx (r, c) = (Return ss None, (r', c'))
    \<Longrightarrow> c' = c + (\<Sum>s\<leftarrow>drop idx ss. 4 + length s)
        \<and> length ss = length arr \<and> take idx ss = take idx arr
        \<and> reads_in_turn (Counting rd) (drop idx ss) (r, c) = Some (r', c')"
proof (induction k \<equiv> "length arr - idx" arbitrary: arr idx r c)
  case 0
  then have "\<not> idx < length arr"
    by simp
  with "0.prems" show ?case
    by (simp add: readStringArray_loop.simps [of _ arr idx])
next
  case (Suc k)
  from Suc.hyps(2) have lt: "idx < length arr"
    by simp
  obtain out r1 c1 where rb: "readString (Counting rd) (r, c) = (out, (r1, c1))"
    by (metis prod.exhaust)
  with lt Suc.prems obtain val where out: "out = Return val None"
    and loop: "readStringArray_loop (Counting rd) (arr[idx := val]) (idx + 1) (r1, c1)
                 = (Return ss None, (r', c'))"
    by (auto simp: readStringArray_loop.simps [of _ arr idx] split: outcome.splits option.splits)
  from readString_Counting_length [where rd = rd, OF full] rb out
  have c1: "c1 = c + 4 + length val"
    by simp
  from Suc.hyps(2) have "k = length (arr[idx := val]) - (idx + 1)"
    by simp
  from Suc.hyps(1) [OF this loop]
  have c': "c' = c1 + (\<Sum>s\<leftarrow>drop (idx + 1) ss. 4 + length s)"
    and len: "length ss = length arr"
    and tk: "take (idx + 1) ss = take (idx + 1) (arr[idx := val])"
    and turn: "reads_in_turn (Counting rd) (drop (idx + 1) ss) (r1, c1) = Some (r', c')"
    by simp_all
  from tk lt len have nth: "ss ! idx = val"
    by (metis Suc_eq_plus1 length_list_update lessI nth_list_update_eq nth_take)
  from tk have "take idx (take (idx + 1) ss) = take idx (take (idx + 1) (arr[idx := val]))"
    by simp
  then have tk': "take idx ss = take idx arr"
    by (simp add: min_def)
  from lt len have "drop idx ss = ss ! idx # drop (idx + 1) ss"
    by (simp add: Cons_nth_drop_Suc)
  with nth have dr: "drop idx ss = val # drop (idx + 1) ss"
    by simp
  from rb out turn have "reads_in_turn (Counting rd) (val # drop (idx + 1) ss) (r, c)
      = Some (r', c')"
    by simp
  with c' c1 len tk' dr show ?case
    by simp
qed

lemma readStringArray_Counting:
  assumes full: "full_reads rd"
    and rs: "readStringArray (Counting rd) (r, c) = (Return ss None, (r', c'))"
  shows "\<exists>cnt r1. readShort (Counting rd) (r, c) = ((cnt, None), (r1, c + 2))
           \<and> 0 \<le> sint cnt \<and> length ss = nat (sint cnt)
           \<and> reads_in_turn (Counting rd) ss (r1, c + 2) = Some (r', c')
           \<and> c' = c + 2 + (\<Sum>s\<leftarrow>ss. 4 + length s)"
proof -
  obtain cnt r1 c1 where ri: "readShort (Counting rd) (r, c) = ((cnt, None), (r1, c1))"
    and pos: "\<not> sint cnt < 0"
    and loop: "readStringArray_loop (Counting rd) (replicate (nat (sint cnt)) []) 0 (r1, c1)
                 = (Return ss None, (r', c'))"
    using rs by (auto simp: readStringArray_def split: prod.splits option.splits if_splits)
  from readShort_Counting [where rd = rd, OF full ri] have c1: "c1 = c + 2" .
  from readStringArray_loop_Counting [where rd = rd, OF full loop]
  have "c' = c1 + (\<Sum>s\<leftarrow>ss. 4 + length s)" and "length ss = nat (sint cnt)"
    and "reads_in_turn (Counting rd) ss (r1, c1) = Some (r', c')"
    by simp_all
  with ri pos c1 show ?thesis
    by auto
qed

text \<open>
  C4, as the claim states it, fails: on a source that delivers one byte for
  each \<open>Read\<close>, \<open>readLong\<close> succeeds after a single byte (the other seven
  bytes of its value are the zeros of its buffer), and \<open>readString\<close>
  succeeds with the empty string after one byte of a six-byte field. No
  operation reads again after a short read.
\<close>

theorem short_read_counterexample:
  "readLong (Counting (OneByteReader Buffer_Read)) ([1, 2, 3, 4, 5, 6, 7, 8], 0)
     = ((0x0100000000000000, None), ([2, 3, 4, 5, 6, 7, 8], 1))
   \<and> readString (Counting (OneByteReader Buffer_Read)) ([0, 0, 0, 2, 0x6F, 0x6B], 0)
     = (Return [] None, ([0, 0, 2, 0x6F, 0x6B], 1))"
  by (simp add: readLong_def readString_def readInt_def Read_def Counting_def
      OneByteReader_def Buffer_Read_def Uint64_def Uint32_def)

text \<open>
  C4, amended: on every source with full-read semantics, a read operation
  that succeeds has consumed exactly the bytes its field declares. A scalar
  has consumed its width: 1, 2, 4 or 8 bytes. \<open>readString\<close> and
  \<open>readByteArray\<close> have read a 4-byte prefix that decodes to a length that
  is not negative, have consumed 4 bytes plus that declared length, and return
  that many bytes. \<open>readStringArray\<close> has read a 2-byte count that is not
  negative, returns that many strings, each of them read in its turn by
  \<open>readString\<close> from where the one before it ended, and has consumed 2
  bytes plus what those reads consumed.
\<close>

theorem reads_consume_declared_bytes:
  assumes "full_reads rd"
  shows "(readBoolean (Counting rd) (r, c) = ((b, None), (r', c')) \<longrightarrow> c' = c + 1)
   \<and> (readByte (Counting rd) (r, c) = ((v8, None), (r', c')) \<longrightarrow> c' = c + 1)
   \<and> (readShort (Counting rd) (r, c) = ((v16, None), (r', c')) \<longrightarrow> c' = c + 2)
   \<and> (readInt (Counting rd) (r, c) = ((v32, None), (r', c')) \<longrightarrow> c' = c + 4)
   \<and> (readLong (Counting rd) (r, c) = ((v64, None), (r', c')) \<longrightarrow> c' = c + 8)
   \<and> (readFloat (Counting rd) (r, c) = ((f, None), (r', c')) \<longrightarrow> c' = c + 8)
   \<and> (readString (Counting rd) (r, c) = (Return s None, (r', c')) \<longrightarrow>
        (\<exists>len r1. readInt (Counting rd) (r, c) = ((len, None), (r1, c + 4))
           \<and> 0 \<le> sint len \<and> length s = nat (sint len) \<and> c' = c + 4 + nat (sint len)))
   \<and> (readByteArray (Counting rd) (r, c) = (Return bs None, (r', c')) \<longrightarrow>
        (\<exists>cnt r1. readInt (Counting rd) (r, c) = ((cnt, None), (r1, c + 4))
           \<and> 0 \<le> sint cnt \<and> length bs = nat (sint cnt) \<and> c' = c + 4 + nat (sint cnt)))
   \<and> (readStringArray (Counting rd) (r, c) = (Return ss None, (r', c')) \<longrightarrow>
        (\<exists>cnt r1. readShort (Counting rd) (r, c) = ((cnt, None), (r1, c + 2))
           \<and> 0 \<le> sint cnt \<and> length ss = nat (sint cnt)
           \<and> reads_in_turn (Counting rd) ss (r1, c + 2) = Some (r', c')
           \<and> c' = c + 2 + (\<Sum>s\<leftarrow>ss. 4 + length s)))"
proof (intro conjI impI)
  assume "readBoolean (Counting rd) (r, c) = ((b, None), (r', c'))"
  then show "c' = c + 1"
    by (rule readBoolean_Counting [OF assms])
next
  assume "readByte (Counting rd) (r, c) = ((v8, None), (r', c'))"
  then show "c' = c + 1"
    by (rule readByte_Counting [OF assms])
next
  assume "readShort (Counting rd) (r, c) = ((v16, None), (r', c'))"
  then show "c' = c + 2"
    by (rule readShort_Counting [OF assms])
next
  assume "readInt (Counting rd) (r, c) = ((v32, None), (r', c'))"
  then show "c' = c + 4"
    by (rule readInt_Counting [OF assms])
next
  assume "readLong (Counting rd) (r, c) = ((v64, None), (r', c'))"
  then show "c' = c + 8"
    by (rule readLong_Counting [OF assms])
next
  assume "readFloat (Counting rd) (r, c) = ((f, None), (r', c'))"
  then show "c' = c + 8"
    by (rule readFloat_Counting [OF assms])
next
  assume "readString (Counting rd) (r, c) = (Return s None, (r', c'))"
  then show "\<exists>len r1. readInt (Counting rd) (r, c) = ((len, None), (r1, c + 4))
      \<and> 0 \<le> sint len \<and> length s = nat (sint len) \<and> c' = c + 4 + nat (sint len)"
    by (rule readString_Counting [OF assms])
next
  assume "readByteArray (Counting rd) (r, c) = (Return bs None, (r', c'))"
  then show "\<exists>cnt r1. readInt (Counting rd) (r, c) = ((cnt, None), (r1, c + 4))
      \<and> 0 \<le> sint cnt \<and> length bs = nat (sint cnt) \<and> c' = c + 4 + nat (sint cnt)"
    by (rule readByteArray_Counting [OF assms])
next
  assume "readStringArray (Counting rd) (r, c) = (Return ss None, (r', c'))"
  then show "\<exists>cnt r1. readShort (Counting rd) (r, c) = ((cnt, None), (r1, c + 2))
      \<and> 0 \<le> sint cnt \<and> length ss = nat (sint cnt)
      \<and> reads_in_turn (Counting rd) ss (r1, c + 2) = Some (r', c')
      \<and> c' = c + 2 + (\<Sum>s\<leftarrow>ss. 4 + length s)"
    by (rule readStringArray_Counting [OF assms])
qed

lemma full_reads_ReadFull_Buffer: "full_reads ReadFull_Buffer"
  by (auto simp: full_reads_def ReadFull_Buffer_def split: if_splits)

theorem reads_consume_declared_bytes_witness:
  "full_reads ReadFull_Buffer
   \<and> readLong (Counting ReadFull_Buffer) ([1, 2, 3, 4, 5, 6, 7, 8, 9], 0)
       = ((0x0102030405060708, None), ([9], 8))
   \<and> readInt (Counting ReadFull_Buffer) ([0, 0, 0, 2, 0x6F, 0x6B, 9], 0)
       = ((2, None), ([0x6F, 0x6B, 9], 4))
   \<and> readString (Counting ReadFull_Buffer) ([0, 0, 0, 2, 0x6F, 0x6B, 9], 0)
       = (Return [0x6F, 0x6B] None, ([9], 6))"
  using reads_consume_declared_bytes [OF full_reads_ReadFull_Buffer, of "[1, 2, 3, 4, 5, 6, 7, 8, 9]" 0]
    reads_consume_declared_bytes [OF full_reads_ReadFull_Buffer, of "[0, 0, 0, 2, 0x6F, 0x6B, 9]" 0]
  by (simp add: full_reads_ReadFull_Buffer readLong_def readString_def readInt_def Read_def
      Counting_def ReadFull_Buffer_def Uint64_def Uint32_def)

subsection \<open>Strings\<close>

lemma PutUint32_bytes:
  "PutUint32 [a, b, c, d] v
     = [ucast (drop_bit 24 v), ucast (drop_bit 16 v), ucast (drop_bit 8 v), ucast v]"
  by (simp add: PutUint32_def)

lemma PutUint16_bytes: "PutUint16 [a, b] v = [ucast (drop_bit 8 v), ucast v]"
  by (simp add: PutUint16_def)

lemma writeString_Buffer:
  "writeString Buffer_Write s buf
     = (None, buf @ PutUint32 [0, 0, 0, 0] (word_of_nat (length s)) @ s)"
  by (simp add: writeString_def writeInt_Buffer Buffer_Write_def)

lemma sint_length:
  assumes "length s < 2 ^ 31"
  shows "sint (word_of_nat (length s) :: int32) = int (length s)"
proof -
  have "int (length s) < 2 ^ 31"
    using assms by simp
  then have "signed_take_bit 31 (int (length s)) = int (length s)"
    by (intro signed_take_bit_int_eq_self) simp_all
  then show ?thesis
    by (simp add: signed_of_nat)
qed

lemma readString_Buffer:
  assumes "length s < 2 ^ 31"
  shows "readString Buffer_Read (PutUint32 [0, 0, 0, 0] (word_of_nat (length s)) @ s @ rest)
           = (Return s None, rest)"
proof -
  let ?n = "word_of_nat (length s) :: int32"
  have ri: "readInt Buffer_Read (PutUint32 [0, 0, 0, 0] ?n @ s @ rest) = ((?n, None), s @ rest)"
    using readInt_Buffer [of "PutUint32 [0, 0, 0, 0] ?n" "s @ rest"]
    by (simp add: Uint32_PutUint32)
  have rd: "Read Buffer_Read (replicate (length s) 0) (s @ rest) = ((s, length s, None), rest)"
    by (rule Read_Buffer) simp
  show ?thesis
    using ri rd by (simp add: readString_def sint_length [OF assms])
qed

lemma writeString_long:
  assumes "length s = 2147483648"
  shows "writeString Buffer_Write s [] = (None, [0x80, 0, 0, 0] @ s)
         \<and> sint (Uint32 [0x80, 0, 0, 0]) = - 2147483648
         \<and> readString Buffer_Read ([0x80, 0, 0, 0] @ s) = (Panic MakesliceLenOutOfRange, s)"
proof -
  have n: "(word_of_nat (length s) :: int32) = 0x80000000"
    using assms by simp
  have u: "Uint32 [0x80, 0, 0, 0] = 0x80000000"
    by (simp add: Uint32_def)
  have ri: "readInt Buffer_Read ([0x80, 0, 0, 0] @ s) = ((0x80000000, None), s)"
    using readInt_Buffer [of "[0x80, 0, 0, 0]" s] by (simp add: u)
  have w: "writeString Buffer_Write s [] = (None, [0x80, 0, 0, 0] @ s)"
    by (simp add: writeString_Buffer n PutUint32_bytes drop_bit_eq_div)
  have p: "readString Buffer_Read ([0x80, 0, 0, 0] @ s) = (Panic MakesliceLenOutOfRange, s)"
    using ri by (simp add: readString_def)
  from w u p show ?thesis
    by simp
qed

text \<open>
  C7, as the claim states it, fails for a string of 2147483648 bytes: the
  length written is the low 32 bits of the byte length, here the bytes
  80 00 00 00, which read as the signed value -2147483648 and not as the byte
  length, and \<open>readString\<close> on that encoding does not yield the string back.
\<close>

theorem writeString_length_wraps:
  "writeString Buffer_Write (replicate 2147483648 0x61) []
     = (None, [0x80, 0, 0, 0] @ replicate 2147483648 0x61)
   \<and> sint (Uint32 [0x80, 0, 0, 0]) = - 2147483648
   \<and> readString Buffer_Read ([0x80, 0, 0, 0] @ replicate 2147483648 0x61)
     = (Panic MakesliceLenOutOfRange, replicate 2147483648 0x61)"
  by (rule writeString_long) (rule length_replicate)

text \<open>
  C7, amended: for every string whose byte length is below 2147483648,
  \<open>writeString\<close> emits the four bytes of the length, most significant
  first, whose signed value is the byte length, and then the bytes of the
  string with nothing after them; \<open>readString\<close> on that encoding yields the
  string back and leaves what follows it. The empty string is four zero bytes
  and no payload, and reads back as the empty string.
\<close>

theorem writeString_encoding:
  assumes "length s < 2 ^ 31"
  shows "writeString Buffer_Write s buf
           = (None, buf @ [ucast (drop_bit 24 (word_of_nat (length s) :: int32)),
                           ucast (drop_bit 16 (word_of_nat (length s) :: int32)),
                           ucast (drop_bit 8 (word_of_nat (length s) :: int32)),
                           ucast (word_of_nat (length s) :: int32)] @ s)
         \<and> sint (word_of_nat (length s) :: int32) = int (length s)
         \<and> readString Buffer_Read (snd (writeString Buffer_Write s []) @ rest)
             = (Return s None, rest)
         \<and> writeString Buffer_Write [] [] = (None, [0, 0, 0, 0])
         \<and> readString Buffer_Read [0, 0, 0, 0] = (Return [] None, [])"
proof -
  have e: "readString Buffer_Read [0, 0, 0, 0] = (Return [] None, [])"
    using readString_Buffer [of "[]" "[]"] by (simp add: PutUint32_bytes)
  show ?thesis
    using readString_Buffer [OF assms, of rest] e
    by (simp add: writeString_Buffer PutUint32_bytes sint_length [OF assms])
qed

theorem writeString_encoding_witness:
  "length [0x6F, 0x6B :: byte] < 2 ^ 31
   \<and> writeString Buffer_Write [0x6F, 0x6B] [] = (None, [0, 0, 0, 2, 0x6F, 0x6B])
   \<and> readString Buffer_Read [0, 0, 0, 2, 0x6F, 0x6B, 9] = (Return [0x6F, 0x6B] None, [9])"
proof -
  have h: "length [0x6F, 0x6B :: byte] < 2 ^ 31"
    by simp
  show ?thesis
    using writeString_encoding [OF h, of "[]" "[9]"] by (auto simp add: drop_bit_eq_div)
qed

subsection \<open>Arrays\<close>

lemma take_Suc_update:
  "idx < length arr \<Longrightarrow> take (Suc idx) (arr[idx := v]) = take idx arr @ [v]"
  by (simp add: take_Suc_conv_app_nth)

lemma readByteArray_loop_Buffer:
  "length arr = idx + length bs \<Longrightarrow>
   readByteArray_loop Buffer_Read arr idx (bs @ rest) = (Return (take idx arr @ bs) None, rest)"
proof (induction bs arbitrary: arr idx)
  case Nil
  then show ?case
    by (simp add: readByteArray_loop.simps [of _ arr idx])
next
  case (Cons b bs)
  from Cons.prems have lt: "idx < length arr"
    by simp
  from Cons.prems have "length (arr[idx := b]) = (idx + 1) + length bs"
    by simp
  from Cons.IH [OF this] lt show ?case
    by (simp add: readByteArray_loop.simps [of _ arr idx] readByte_Buffer take_Suc_update)
qed

lemma readStringArray_loop_Buffer:
  "length arr = idx + length ss \<Longrightarrow> \<forall>s \<in> set ss. length s < 2 ^ 31 \<Longrightarrow>
   readStringArray_loop Buffer_Read arr idx
     (concat (map (\<lambda>s. snd (writeString Buffer_Write s [])) ss) @ rest)
     = (Return (take idx arr @ ss) None, rest)"
proof (induction ss arbitrary: arr idx)
  case Nil
  then show ?case
    by (simp add: readStringArray_loop.simps [of _ arr idx])
next
  case (Cons s ss)
  from Cons.prems have lt: "idx < length arr" and len: "length s < 2 ^ 31"
    and all: "\<forall>s \<in> set ss. length s < 2 ^ 31"
    by simp_all
  from Cons.prems have "length (arr[idx := s]) = (idx + 1) + length ss"
    by simp
  from Cons.IH [OF this all] lt
    readString_Buffer [OF len, of "concat (map (\<lambda>s. snd (writeString Buffer_Write s [])) ss) @ rest"]
  show ?case
    by (simp add: readStringArray_loop.simps [of _ arr idx] writeString_Buffer take_Suc_update)
qed

lemma sint_count16:
  assumes "n < 2 ^ 15"
  shows "sint (word_of_nat n :: int16) = int n"
proof -
  have "int n < 2 ^ 15"
    using assms by simp
  then have "signed_take_bit 15 (int n) = int n"
    by (intro signed_take_bit_int_eq_self) simp_all
  then show ?thesis
    by (simp add: signed_of_nat)
qed

text \<open>
  C8: \<open>readStringArray\<close> reads a count of two bytes and then that many
  strings, each in the string encoding; \<open>readByteArray\<close> reads a count of
  four bytes and then that many single bytes. On a stream that holds a count
  of the stated width, the elements and anything after them, each operation
  returns the elements and leaves exactly what follows them.
\<close>

theorem array_count_prefixes:
  assumes "length ss < 2 ^ 15" and "\<forall>s \<in> set ss. length s < 2 ^ 31"
    and "length bs < 2 ^ 31"
  shows "readStringArray Buffer_Read
           ([ucast (drop_bit 8 (word_of_nat (length ss) :: int16)),
             ucast (word_of_nat (length ss) :: int16)]
            @ concat (map (\<lambda>s. snd (writeString Buffer_Write s [])) ss) @ rest)
           = (Return ss None, rest)
       \<and> readByteArray Buffer_Read
           ([ucast (drop_bit 24 (word_of_nat (length bs) :: int32)),
             ucast (drop_bit 16 (word_of_nat (length bs) :: int32)),
             ucast (drop_bit 8 (word_of_nat (length bs) :: int32)),
             ucast (word_of_nat (length bs) :: int32)]
            @ bs @ rest)
           = (Return bs None, rest)"
proof -
  let ?n = "word_of_nat (length ss) :: int16"
  let ?m = "word_of_nat (length bs) :: int32"
  let ?body = "concat (map (\<lambda>s. snd (writeString Buffer_Write s [])) ss) @ rest"
  have rs: "readShort Buffer_Read (PutUint16 [0, 0] ?n @ ?body) = ((?n, None), ?body)"
    using readShort_Buffer [of "PutUint16 [0, 0] ?n" ?body]
    by (simp add: Uint16_PutUint16)
  have ls: "readStringArray_loop Buffer_Read (replicate (length ss) []) 0 ?body
              = (Return ss None, rest)"
    using readStringArray_loop_Buffer [of "replicate (length ss) []" 0 ss rest] assms(2)
    by simp
  have sa: "readStringArray Buffer_Read (PutUint16 [0, 0] ?n @ ?body) = (Return ss None, rest)"
    using rs ls by (simp add: readStringArray_def sint_count16 [OF assms(1)])
  have ri: "readInt Buffer_Read (PutUint32 [0, 0, 0, 0] ?m @ bs @ rest) = ((?m, None), bs @ rest)"
    using readInt_Buffer [of "PutUint32 [0, 0, 0, 0] ?m" "bs @ rest"]
    by (simp add: Uint32_PutUint32)
  have lb: "readByteArray_loop Buffer_Read (replicate (length bs) 0) 0 (bs @ rest)
              = (Return bs None, rest)"
    using readByteArray_loop_Buffer [of "replicate (length bs) 0" 0 bs rest]
    by simp
  have ba: "readByteArray Buffer_Read (PutUint32 [0, 0, 0, 0] ?m @ bs @ rest)
              = (Return bs None, rest)"
    using ri lb by (simp add: readByteArray_def sint_length [OF assms(3)])
  from sa ba show ?thesis
    by (simp add: PutUint16_bytes PutUint32_bytes)
qed

theorem array_count_prefixes_witness:
  "length [[0x6F, 0x6B], [], [0x61 :: byte]] < 2 ^ 15
   \<and> length [0x6F, 0x6B :: byte] < 2 ^ 31
   \<and> length [1, 2, 3 :: byte] < 2 ^ 31
   \<and> readStringArray Buffer_Read
        [0, 3, 0, 0, 0, 2, 0x6F, 0x6B, 0, 0, 0, 0, 0, 0, 0, 1, 0x61, 9]
        = (Return [[0x6F, 0x6B], [], [0x61]] None, [9])
   \<and> readByteArray Buffer_Read [0, 0, 0, 3, 1, 2, 3, 9] = (Return [1, 2, 3] None, [9])"
proof -
  have h1: "length [[0x6F, 0x6B], [], [0x61 :: byte]] < 2 ^ 15"
    by simp
  have h2: "\<forall>s \<in> set [[0x6F, 0x6B], [], [0x61 :: byte]]. length s < 2 ^ 31"
    by simp
  have h3: "length [1, 2, 3 :: byte] < 2 ^ 31"
    by simp
  show ?thesis
    using array_count_prefixes [OF h1 h2 h3, of "[9]"]
    by (simp add: writeString_Buffer PutUint32_bytes drop_bit_eq_div)
qed

end
